theory Spec2Isabelle
  imports Main "HOL-Library.AList" "HOL-Library.Multiset"
begin

section \<open>Python values shared by the modules\<close>

text \<open>
  Python integers are unbounded: they are \<^typ>\<open>int\<close>. A \<open>dict\<close> keeps its keys in insertion
  order and the code iterates over them, so a dict is an association list with distinct keys:
  \<^const>\<open>map_of\<close> reads it, \<^const>\<open>AList.update\<close> assigns (in place for a present key, at
  the end for a new one, as Python does) and \<open>map fst\<close> lists its keys.
\<close>

type_synonym ('k, 'v) dict = "('k \<times> 'v) list"

definition keys :: "('k, 'v) dict \<Rightarrow> 'k list" where
  "keys d = map fst d"

text \<open>\<open>d[k].append(v)\<close> after \<open>if k not in d: d[k] = []\<close>.\<close>

definition dict_append :: "'k \<Rightarrow> 'v \<Rightarrow> ('k, 'v list) dict \<Rightarrow> ('k, 'v list) dict" where
  "dict_append k v d =
     AList.update k ((case map_of d k of None \<Rightarrow> [] | Some vs \<Rightarrow> vs) @ [v]) d"

section \<open>gpio_rpi.py: the output pins\<close>

datatype GPIO =
    gpio1 | gpio2 | gpio3 | gpio4 | gpio5 | gpio6 | gpio7 | gpio8 | gpio9
  | gpio10 | gpio11 | gpio12 | gpio13 | gpio14 | gpio15 | gpio16 | gpio17 | gpio18
  | gpio19 | gpio20 | gpio21 | gpio22 | gpio23 | gpio24 | gpio25 | gpio26 | gpio27

section \<open>fixture_definitions.py: the fixture catalog\<close>

definition SACN_UNI_MAX :: int where
  "SACN_UNI_MAX = 63999"

definition DMX_UNI_SIZE :: int where
  "DMX_UNI_SIZE = 512"

datatype FixtureChannelName = RED | GREEN | BLUE | WHITE

datatype ChannelDepth = D8 | D16

fun byteCount :: "ChannelDepth \<Rightarrow> int" where
  "byteCount D8 = 1"
| "byteCount D16 = 2"

datatype FixtureChannel = R8 | G8 | B8 | W8 | R16 | G16 | B16 | W16

fun channel_label :: "FixtureChannel \<Rightarrow> FixtureChannelName" where
  "channel_label R8 = RED"
| "channel_label G8 = GREEN"
| "channel_label B8 = BLUE"
| "channel_label W8 = WHITE"
| "channel_label R16 = RED"
| "channel_label G16 = GREEN"
| "channel_label B16 = BLUE"
| "channel_label W16 = WHITE"

fun depth :: "FixtureChannel \<Rightarrow> ChannelDepth" where
  "depth R8 = D8"
| "depth G8 = D8"
| "depth B8 = D8"
| "depth W8 = D8"
| "depth R16 = D16"
| "depth G16 = D16"
| "depth B16 = D16"
| "depth W16 = D16"

datatype Fixture = PX_RGB_8 | PX_RGB_16 | PX_RGBW_8 | PX_RGBW_16

fun fixture_label :: "Fixture \<Rightarrow> string" where
  "fixture_label PX_RGB_8 = ''rgb8''"
| "fixture_label PX_RGB_16 = ''rgb16''"
| "fixture_label PX_RGBW_8 = ''rgbw8''"
| "fixture_label PX_RGBW_16 = ''rgbw16''"

fun channels :: "Fixture \<Rightarrow> FixtureChannel list" where
  "channels PX_RGB_8 = [R8, G8, B8]"
| "channels PX_RGB_16 = [R16, G16, B16]"
| "channels PX_RGBW_8 = [R8, G8, B8, W8]"
| "channels PX_RGBW_16 = [R16, G16, B16, W16]"

definition channel_count :: "Fixture \<Rightarrow> int" where
  "channel_count f = int (length (channels f))"

text \<open>
  \<open>channels_offset\<close>: the loop appends the running offset and then adds the channel's byte
  count to it.
\<close>

fun offsets_from :: "int \<Rightarrow> FixtureChannel list \<Rightarrow> int list" where
  "offsets_from current_offset [] = []"
| "offsets_from current_offset (channel # rest) =
     current_offset # offsets_from (current_offset + byteCount (depth channel)) rest"

definition channels_offset :: "Fixture \<Rightarrow> int list" where
  "channels_offset f = offsets_from 0 (channels f)"

definition profile_size :: "Fixture \<Rightarrow> int" where
  "profile_size f = sum_list (map (\<lambda>ch. byteCount (depth ch)) (channels f))"

text \<open>The members of the enum, in the order the class declares (and iterates) them.\<close>

definition Fixture_members :: "Fixture list" where
  "Fixture_members = [PX_RGB_8, PX_RGB_16, PX_RGBW_8, PX_RGBW_16]"

text \<open>
  The exceptions the modelled code raises. A \<open>ValueError\<close> of the configuration check carries
  the message it has collected, one entry per line of the message:
  \<^item> \<open>PinUsedTwice g\<close> is \<open>"Pin [g] used on multiple outputs\n"\<close>,
  \<^item> \<open>LabelUsedTwice out l\<close> is \<open>"Strip [out > l]: label used on multiple strips\n"\<close>,
  \<^item> \<open>DoesNotFit out l\<close> is \<open>"Strip [out > l] does not fit in a single DMX universe\n"\<close>.
\<close>

datatype OutputLabel = OUT1 | OUT2 | OUT3 | OUT4

datatype logline =
    PinUsedTwice GPIO
  | LabelUsedTwice OutputLabel string
  | DoesNotFit OutputLabel string

datatype error =
    ValueError_config "logline list"   \<comment> \<open>\<open>raise ValueError(logmessage)\<close> in \<open>_validate_cfg\<close>\<close>
  | ValueError_fixture string          \<comment> \<open>\<open>Fixture.from_string\<close>: not a valid fixture type\<close>
  | ValueError_pixel FixtureChannelName int  \<comment> \<open>a \<open>Pixel\<close> setter: value out of range\<close>
  | IndexError                         \<comment> \<open>a sequence index out of range, or no record\<close>
  | KeyError                           \<comment> \<open>a missing dict key\<close>
  | NameError                          \<comment> \<open>a local variable read before it is bound\<close>
  | ValueError_closed                  \<comment> \<open>\<open>put\<close> or \<open>get\<close> on a closed \<open>multiprocessing.Queue\<close>\<close>
  | Empty                              \<comment> \<open>\<open>queue.Empty\<close>: \<open>get(False)\<close> found nothing\<close>

fun from_string_in :: "Fixture list \<Rightarrow> string \<Rightarrow> error + Fixture" where
  "from_string_in [] v = Inl (ValueError_fixture v)"
| "from_string_in (item # rest) v =
     (if fixture_label item = v then Inr item else from_string_in rest v)"

definition from_string :: "string \<Rightarrow> error + Fixture" where
  "from_string v = from_string_in Fixture_members v"

definition getFixtureNames :: "string list" where
  "getFixtureNames = map fixture_label Fixture_members"

section \<open>config_models.py: the validated configuration\<close>

record LedStrip =
  label :: string
  pixel_count :: int
  universe :: int
  start_channel :: int

record PinConfig =
  gpio :: GPIO
  pixel_type :: string
  strips :: "LedStrip list"

text \<open>
  \<open>FullConfig.outputs\<close> is a \<open>dict[OutputLabel, PinConfig]\<close>. The model validators that matter
  below: a dict has distinct keys, and \<open>PinConfig.validate_fixture_type\<close> accepts a pixel type
  only when it is the label of a catalog entry.
\<close>

type_synonym outputs = "(OutputLabel, PinConfig) dict"

definition validate_fixture_type :: "string \<Rightarrow> bool" where
  "validate_fixture_type v = (v \<in> set getFixtureNames)"

definition FullConfig :: "outputs \<Rightarrow> bool" where
  "FullConfig cfg =
     (distinct (keys cfg) \<and> list_all (\<lambda>pc. validate_fixture_type (PinConfig.pixel_type pc)) (map snd cfg))"

section \<open>fixture_definitions.py: a patched strip\<close>

record FixturePatchBase =
  label :: string
  pixel_count :: int
  universe :: int
  start_channel :: int
  output_gpio :: GPIO
  pos_in_out_queue :: int

record FixturePatch = FixturePatchBase +
  pixel_type :: Fixture

definition end_channel :: "FixturePatch \<Rightarrow> int" where
  "end_channel p = start_channel p + pixel_count p * profile_size (pixel_type p) - 1"


section \<open>fixture_manager.py: the patch table\<close>

subsection \<open>\<open>_validate_cfg\<close>\<close>

text \<open>The local variables the two loops of \<open>_validate_cfg\<close> update.\<close>

record validation =
  tmp_valid :: bool
  declared_gpio :: "GPIO list"
  declared_labels :: "string list"
  logmessage :: "logline list"

text \<open>The body of \<open>for strip in declared_strips\<close>, for the output \<open>out\<close> with settings \<open>pc\<close>.\<close>

definition validate_strip ::
  "OutputLabel \<Rightarrow> PinConfig \<Rightarrow> LedStrip \<Rightarrow> validation \<Rightarrow> error + validation" where
  "validate_strip out pc strip v =
     (let v1 =
        (if LedStrip.label strip \<in> set (declared_labels v)
         then v\<lparr>logmessage := logmessage v @ [LabelUsedTwice out (LedStrip.label strip)],
                tmp_valid := False\<rparr>
         else v\<lparr>declared_labels := declared_labels v @ [LedStrip.label strip]\<rparr>)
      in case from_string (PinConfig.pixel_type pc) of
           Inl e \<Rightarrow> Inl e
         | Inr fx \<Rightarrow>
             (let end_ch = LedStrip.start_channel strip - 1
                            + LedStrip.pixel_count strip * profile_size fx
              in if end_ch > DMX_UNI_SIZE
                 then Inr (v1\<lparr>logmessage := logmessage v1 @ [DoesNotFit out (LedStrip.label strip)],
                              tmp_valid := False\<rparr>)
                 else Inr v1))"

fun validate_strips ::
  "OutputLabel \<Rightarrow> PinConfig \<Rightarrow> LedStrip list \<Rightarrow> validation \<Rightarrow> error + validation" where
  "validate_strips out pc [] v = Inr v"
| "validate_strips out pc (strip # rest) v =
     (case validate_strip out pc strip v of
        Inl e \<Rightarrow> Inl e
      | Inr v' \<Rightarrow> validate_strips out pc rest v')"

text \<open>The body of \<open>for out in declared_outputs\<close>.\<close>

definition validate_output :: "OutputLabel \<times> PinConfig \<Rightarrow> validation \<Rightarrow> error + validation" where
  "validate_output e v =
     (let out = fst e; pc = snd e;
          v1 = (if gpio pc \<in> set (declared_gpio v)
                then v\<lparr>logmessage := logmessage v @ [PinUsedTwice (gpio pc)], tmp_valid := False\<rparr>
                else v\<lparr>declared_gpio := declared_gpio v @ [gpio pc]\<rparr>)
      in validate_strips out pc (strips pc) v1)"

fun validate_outputs :: "outputs \<Rightarrow> validation \<Rightarrow> error + validation" where
  "validate_outputs [] v = Inr v"
| "validate_outputs (e # rest) v =
     (case validate_output e v of
        Inl err \<Rightarrow> Inl err
      | Inr v' \<Rightarrow> validate_outputs rest v')"

definition validate_cfg :: "outputs \<Rightarrow> error + unit" where
  "validate_cfg cfg =
     (case validate_outputs cfg
             \<lparr>tmp_valid = True, declared_gpio = [], declared_labels = [], logmessage = []\<rparr> of
        Inl e \<Rightarrow> Inl e
      | Inr v \<Rightarrow> if \<not> tmp_valid v then Inl (ValueError_config (logmessage v)) else Inr ())"

subsection \<open>\<open>_patch_fixtures\<close>\<close>

record FixtureManager =
  by_out :: "(GPIO, FixturePatch list) dict"
  by_uni :: "(int, FixturePatch list) dict"

text \<open>
  The body of \<open>for strip in declared_strips\<close>: the manager and the running
  \<open>strip_queue_pos\<close> go in and come out.
\<close>

definition patch_strip ::
  "PinConfig \<Rightarrow> LedStrip \<Rightarrow> FixtureManager \<times> int \<Rightarrow> error + FixtureManager \<times> int" where
  "patch_strip pc strip st =
     (let self = fst st; strip_queue_pos = snd st
      in case from_string (PinConfig.pixel_type pc) of
           Inl e \<Rightarrow> Inl e
         | Inr fx \<Rightarrow>
             (let new_patch =
                    \<lparr>FixturePatchBase.label = LedStrip.label strip,
                     FixturePatchBase.pixel_count = LedStrip.pixel_count strip,
                     FixturePatchBase.universe = LedStrip.universe strip,
                     FixturePatchBase.start_channel = LedStrip.start_channel strip,
                     FixturePatchBase.output_gpio = gpio pc,
                     FixturePatchBase.pos_in_out_queue = strip_queue_pos,
                     FixturePatch.pixel_type = fx\<rparr>
              in Inr (self\<lparr>by_out := dict_append (gpio pc) new_patch (by_out self),
                           by_uni := dict_append (LedStrip.universe strip) new_patch (by_uni self)\<rparr>,
                      strip_queue_pos + 1)))"

fun patch_strips ::
  "PinConfig \<Rightarrow> LedStrip list \<Rightarrow> FixtureManager \<times> int \<Rightarrow> error + FixtureManager \<times> int" where
  "patch_strips pc [] st = Inr st"
| "patch_strips pc (strip # rest) st =
     (case patch_strip pc strip st of
        Inl e \<Rightarrow> Inl e
      | Inr st' \<Rightarrow> patch_strips pc rest st')"

text \<open>The body of \<open>for out in declared_outputs\<close>: \<open>self._by_out[cfg[out].gpio] = []\<close> first.\<close>

definition patch_output :: "OutputLabel \<times> PinConfig \<Rightarrow> FixtureManager \<Rightarrow> error + FixtureManager" where
  "patch_output e self =
     (let pc = snd e
      in case patch_strips pc (strips pc)
                (self\<lparr>by_out := AList.update (gpio pc) [] (by_out self)\<rparr>, 0) of
           Inl err \<Rightarrow> Inl err
         | Inr st \<Rightarrow> Inr (fst st))"

fun patch_outputs :: "outputs \<Rightarrow> FixtureManager \<Rightarrow> error + FixtureManager" where
  "patch_outputs [] self = Inr self"
| "patch_outputs (e # rest) self =
     (case patch_output e self of
        Inl err \<Rightarrow> Inl err
      | Inr self' \<Rightarrow> patch_outputs rest self')"

text \<open>
  The bubble sort of one universe's list. The inner loop body compares the neighbours at \<open>i\<close>
  and \<open>i + 1\<close> and swaps them when the left one starts later; both indices are below the
  length, because \<open>i\<close> ranges over \<open>range(len - 1)\<close>.
\<close>

definition swap_step :: "nat \<Rightarrow> FixturePatch list \<Rightarrow> FixturePatch list" where
  "swap_step i ps =
     (if start_channel (ps ! i) > start_channel (ps ! (i + 1))
      then (let tmp1 = ps ! i; tmp2 = ps ! (i + 1) in (ps[i := tmp2])[i + 1 := tmp1])
      else ps)"

definition bubble_pass :: "FixturePatch list \<Rightarrow> FixturePatch list" where
  "bubble_pass ps = fold swap_step [0..<length ps - 1] ps"

definition bubblesort :: "FixturePatch list \<Rightarrow> FixturePatch list" where
  "bubblesort ps = fold (\<lambda>k. bubble_pass) [0..<length ps - 1] ps"

text \<open>
  \<open>_patch_fixtures\<close> returns the exception it raised, if any, and the manager as the call
  left it.
\<close>

definition patch_fixtures :: "outputs \<Rightarrow> FixtureManager \<Rightarrow> error option \<times> FixtureManager" where
  "patch_fixtures cfg self =
     (case validate_cfg cfg of
        Inl e \<Rightarrow> (Some e, self)
      | Inr u \<Rightarrow>
          (case patch_outputs cfg (self\<lparr>by_out := [], by_uni := []\<rparr>) of
             Inl e \<Rightarrow> (Some e, self\<lparr>by_out := [], by_uni := []\<rparr>)
           | Inr self' \<Rightarrow>
               (None, self'\<lparr>by_uni := map (\<lambda>(uni, ps). (uni, bubblesort ps)) (by_uni self')\<rparr>)))"

text \<open>\<open>__init__\<close>: two empty dicts, then \<open>_patch_fixtures\<close>.\<close>

definition FixtureManager_init :: "outputs \<Rightarrow> error option \<times> FixtureManager" where
  "FixtureManager_init cfg = patch_fixtures cfg \<lparr>by_out = [], by_uni = []\<rparr>"

subsection \<open>The queries\<close>

definition get_fixtures_all :: "FixtureManager \<Rightarrow> (GPIO, FixturePatch list) dict" where
  "get_fixtures_all self = by_out self"

definition get_fixtures_by_uni :: "FixtureManager \<Rightarrow> int \<Rightarrow> FixturePatch list" where
  "get_fixtures_by_uni self u =
     (case map_of (by_uni self) u of Some ps \<Rightarrow> ps | None \<Rightarrow> [])"

definition get_fixtures_by_out :: "FixtureManager \<Rightarrow> GPIO \<Rightarrow> FixturePatch list" where
  "get_fixtures_by_out self g =
     (case map_of (by_out self) g of Some ps \<Rightarrow> ps | None \<Rightarrow> [])"

definition get_universe_list :: "FixtureManager \<Rightarrow> int list" where
  "get_universe_list self = keys (by_uni self)"

section \<open>misc.py, universedata.py\<close>

definition WORKER_LED_REFRESH_RATE :: int where
  "WORKER_LED_REFRESH_RATE = 40"

text \<open>
  A \<open>datetime\<close> has microsecond resolution: it is the number of microseconds since some
  epoch, and a \<open>timedelta\<close> is a number of microseconds. \<open>str\<close> of a \<open>datetime\<close> is library
  code: the functions that call it take it as the parameter \<open>str_of\<close>.
\<close>

type_synonym datetime = int
type_synonym timedelta = int

record UniverseData =
  universe :: int
  priority :: int
  sourceName :: string
  dmxData :: "int list"
  latestTimeStamp :: string

text \<open>
  The dict \<open>toDict\<close> builds, with its five keys; \<open>fromDict\<close> reads them back. (\<open>fromDict\<close>
  returns \<open>None\<close> for an object that is not such a dict; the queue only carries what
  \<open>toDict\<close> built.)
\<close>

record UniverseDict =
  universe :: int
  priority :: int
  sourceName :: string
  dmxData :: "int list"
  latestts :: string

definition toDict :: "UniverseData \<Rightarrow> UniverseDict" where
  "toDict d =
     \<lparr>UniverseDict.universe = UniverseData.universe d,
      UniverseDict.priority = UniverseData.priority d,
      UniverseDict.sourceName = UniverseData.sourceName d,
      UniverseDict.dmxData = UniverseData.dmxData d,
      UniverseDict.latestts = UniverseData.latestTimeStamp d\<rparr>"

definition fromDict :: "UniverseDict \<Rightarrow> UniverseData" where
  "fromDict obj =
     \<lparr>UniverseData.universe = UniverseDict.universe obj,
      UniverseData.priority = UniverseDict.priority obj,
      UniverseData.sourceName = UniverseDict.sourceName obj,
      UniverseData.dmxData = UniverseDict.dmxData obj,
      UniverseData.latestTimeStamp = UniverseDict.latestts obj\<rparr>"

section \<open>The bounded queue between the two processes\<close>

text \<open>
  \<open>multiprocessing.Queue(maxsize)\<close>: the entries not yet taken, oldest first. \<open>full()\<close> holds
  when \<open>maxsize\<close> entries are waiting. \<open>put(x)\<close> raises \<open>ValueError\<close> on a closed queue, and
  on a full one it waits for room: the caller does not come back, which is the result
  \<open>Waits\<close>. \<open>get(False)\<close> raises \<open>ValueError\<close> on a closed queue and \<open>Empty\<close> when nothing is
  waiting; otherwise it takes the oldest entry.
\<close>

record 'a Queue =
  entries :: "'a list"
  maxsize :: nat
  closed :: bool

definition full :: "'a Queue \<Rightarrow> bool" where
  "full q = (length (entries q) \<ge> maxsize q)"

datatype 'a put_result = Raises error | Waits | Put "'a Queue"

definition put :: "'a \<Rightarrow> 'a Queue \<Rightarrow> 'a put_result" where
  "put x q =
     (if closed q then Raises ValueError_closed
      else if full q then Waits
      else Put (q\<lparr>entries := entries q @ [x]\<rparr>))"

definition get_nowait :: "'a Queue \<Rightarrow> error + 'a \<times> 'a Queue" where
  "get_nowait q =
     (if closed q then Inl ValueError_closed
      else case entries q of
             [] \<Rightarrow> Inl Empty
           | x # rest \<Rightarrow> Inr (x, q\<lparr>entries := rest\<rparr>))"

definition close :: "'a Queue \<Rightarrow> 'a Queue" where
  "close q = q\<lparr>closed := True\<rparr>"

text \<open>
  The queue is shared with other processes, which act between two calls of this one:
  \<open>Taken\<close> is a \<open>get\<close> by another process (the render worker), \<open>Added x\<close> a \<open>put\<close> by
  another process. A \<open>get\<close> on an empty queue and a \<open>put\<close> on a full one wait and change
  nothing.
\<close>

datatype 'a interference = Taken | Added 'a

fun interfere :: "'a interference list \<Rightarrow> 'a Queue \<Rightarrow> 'a Queue" where
  "interfere [] q = q"
| "interfere (Taken # es) q = interfere es (q\<lparr>entries := tl (entries q)\<rparr>)"
| "interfere (Added x # es) q =
     interfere es (if full q then q else q\<lparr>entries := entries q @ [x]\<rparr>)"

section \<open>sacn_manager.py\<close>

text \<open>The fields of the library's \<open>DataPacket\<close> that the manager reads.\<close>

record DataPacket =
  dmxStartCode :: int
  universe :: int
  priority :: int
  sourceName :: string
  dmxData :: "int list"

record TimedDataPacket =
  raw :: DataPacket
  timeStamp :: datetime

text \<open>
  What the manager writes to its logger: \<open>NewSource\<close> and \<open>UpdatedSource\<close> are the two
  \<open>info\<close> lines of \<open>_onPacketReceived\<close> (universe, priority, source name),
  \<open>FailedToFreeSpace\<close> is \<open>error("Failed to free space on sACN data share")\<close> and
  \<open>FullBuffer\<close> is \<open>error("Failed to write to sACN data share: full buffer")\<close>.
\<close>

datatype logged =
    NewSource int int string
  | UpdatedSource int int string
  | FailedToFreeSpace
  | FullBuffer

type_synonym snapshot = "(int, UniverseDict) dict"

record sACNmanager =
  db :: "(int, TimedDataPacket) dict"
  lastQueueUpdateTs :: "(int, datetime) dict"
  registeredUniverses :: "int list"
  sacnShareQueue :: "snapshot Queue option"
  logger :: "logged list"

definition queueSize :: nat where
  "queueSize = 50"

text \<open>
  \<open>_queueRefreshDelta = timedelta(microseconds=(pow(10, 6) / WORKER_LED_REFRESH_RATE))\<close>:
  the float quotient is the integer 25000.
\<close>

definition queueRefreshDelta :: timedelta where
  "queueRefreshDelta = 10 ^ 6 div WORKER_LED_REFRESH_RATE"

text \<open>
  \<open>timedelta * float\<close> multiplies the microseconds by the float's exact ratio
  (\<open>as_integer_ratio\<close>) and rounds the quotient to the nearest integer, ties to even
  (\<open>_divide_and_round\<close>). The float \<open>0.9\<close> is \<open>8106479329266893 / 2 ^ 53\<close>.
\<close>

definition divide_and_round :: "int \<Rightarrow> int \<Rightarrow> int" where
  "divide_and_round a b =
     (let q = a div b; r = 2 * (a mod b);
          greater_than_half = (if b > 0 then r > b else r < b)
      in if greater_than_half \<or> (r = b \<and> q mod 2 = 1) then q + 1 else q)"

definition float_0_9 :: "int \<times> int" where
  "float_0_9 = (8106479329266893, 9007199254740992)"

definition timedelta_mul_float :: "timedelta \<Rightarrow> int \<times> int \<Rightarrow> timedelta" where
  "timedelta_mul_float td ratio = divide_and_round (td * fst ratio) (snd ratio)"

text \<open>\<open>__init__\<close>: empty dicts and lists, and a queue of \<open>_queueSize\<close> places.\<close>

definition sACNmanager_init :: sACNmanager where
  "sACNmanager_init =
     \<lparr>db = [], lastQueueUpdateTs = [], registeredUniverses = [],
      sacnShareQueue = Some \<lparr>entries = [], maxsize = queueSize, closed = False\<rparr>,
      logger = []\<rparr>"

definition getAvailableUniverses :: "sACNmanager \<Rightarrow> int list" where
  "getAvailableUniverses self = keys (db self)"

definition getUniverseData ::
  "(datetime \<Rightarrow> string) \<Rightarrow> sACNmanager \<Rightarrow> int \<Rightarrow> error + UniverseData" where
  "getUniverseData str_of self u =
     (case map_of (db self) u of
        Some tp \<Rightarrow>
          Inr \<lparr>UniverseData.universe = DataPacket.universe (raw tp),
               UniverseData.priority = DataPacket.priority (raw tp),
               UniverseData.sourceName = DataPacket.sourceName (raw tp),
               UniverseData.dmxData = DataPacket.dmxData (raw tp),
               UniverseData.latestTimeStamp = str_of (timeStamp tp)\<rparr>
      | None \<Rightarrow> Inl IndexError)"

text \<open>
  \<open>getAllUniverseDataDict\<close> calls \<open>getUniverseData\<close> for each key of \<open>_db\<close>, in order; an
  exception of that call would leave the loop.
\<close>

fun all_universes ::
  "(datetime \<Rightarrow> string) \<Rightarrow> sACNmanager \<Rightarrow> int list \<Rightarrow> snapshot \<Rightarrow> error + snapshot" where
  "all_universes str_of self [] tmp = Inr tmp"
| "all_universes str_of self (u # rest) tmp =
     (case getUniverseData str_of self u of
        Inl e \<Rightarrow> Inl e
      | Inr tmpUni \<Rightarrow> all_universes str_of self rest (AList.update u (toDict tmpUni) tmp))"

definition getAllUniverseDataDict :: "(datetime \<Rightarrow> string) \<Rightarrow> sACNmanager \<Rightarrow> error + snapshot" where
  "getAllUniverseDataDict str_of self = all_universes str_of self (keys (db self)) []"

text \<open>
  \<open>_updateQueue\<close>. The result says how the call ended: it returned (with the manager as it
  left it), it raised, or it waits in a \<open>put\<close>. The other processes act at three places:
  \<open>e1\<close> after the first \<open>full()\<close>, \<open>e2\<close> after \<open>get(False)\<close>, \<open>e3\<close> after the second
  \<open>full()\<close>.
\<close>

datatype 'a ending = Returned 'a | Raised error | Waiting

definition try_put ::
  "(datetime \<Rightarrow> string) \<Rightarrow> sACNmanager \<Rightarrow> snapshot Queue \<Rightarrow> sACNmanager ending" where
  "try_put str_of self q =
     (case getAllUniverseDataDict str_of self of
        Inl e \<Rightarrow> Raised e
      | Inr update \<Rightarrow>
          (case put update q of
             Raises e \<Rightarrow> Returned (self\<lparr>sacnShareQueue := Some q\<rparr>)
           | Waits \<Rightarrow> Waiting
           | Put q' \<Rightarrow> Returned (self\<lparr>sacnShareQueue := Some q'\<rparr>)))"

definition updateQueue ::
  "(datetime \<Rightarrow> string) \<Rightarrow>
   snapshot interference list \<times> snapshot interference list \<times> snapshot interference list \<Rightarrow>
   sACNmanager \<Rightarrow> sACNmanager ending" where
  "updateQueue str_of env self =
     (let e1 = fst env; e2 = fst (snd env); e3 = snd (snd env)
      in case sacnShareQueue self of
           None \<Rightarrow> Returned self
         | Some q \<Rightarrow>
             if \<not> full q then try_put str_of self (interfere e1 q)
             else (case get_nowait (interfere e1 q) of
                     Inl err \<Rightarrow>
                       (if err = Empty
                        then Returned (self\<lparr>sacnShareQueue := Some (interfere e1 q),
                                            logger := logger self @ [FailedToFreeSpace]\<rparr>)
                        else Returned (self\<lparr>sacnShareQueue := Some (interfere e1 q)\<rparr>))
                   | Inr got \<Rightarrow>
                       (let q2 = interfere e2 (snd got)
                        in if \<not> full q2 then try_put str_of self (interfere e3 q2)
                           else Returned (self\<lparr>sacnShareQueue := Some q2,
                                               logger := logger self @ [FullBuffer]\<rparr>))))"

text \<open>
  \<open>_onPacketReceived\<close>, called with the packet; \<open>now\<close> is what \<open>datetime.now()\<close> returns.
\<close>

definition onPacketReceived ::
  "(datetime \<Rightarrow> string) \<Rightarrow>
   snapshot interference list \<times> snapshot interference list \<times> snapshot interference list \<Rightarrow>
   datetime \<Rightarrow> DataPacket \<Rightarrow> sACNmanager \<Rightarrow> sACNmanager ending" where
  "onPacketReceived str_of env now packet self =
     (if dmxStartCode packet \<noteq> 0 then Returned self
      else
        (let u = DataPacket.universe packet;
             self1 =
               (case map_of (db self) u of
                  None \<Rightarrow>
                    self\<lparr>logger := logger self
                      @ [NewSource u (DataPacket.priority packet) (DataPacket.sourceName packet)]\<rparr>
                | Some old \<Rightarrow>
                    if DataPacket.universe (raw old) \<noteq> u
                       \<or> DataPacket.priority (raw old) \<noteq> DataPacket.priority packet
                       \<or> DataPacket.sourceName (raw old) \<noteq> DataPacket.sourceName packet
                    then self\<lparr>logger := logger self
                      @ [UpdatedSource u (DataPacket.priority packet) (DataPacket.sourceName packet)]\<rparr>
                    else self);
             newPacketTs = now;
             self2 = self1\<lparr>db := AList.update u \<lparr>raw = packet, timeStamp = newPacketTs\<rparr> (db self1)\<rparr>
         in if (case map_of (lastQueueUpdateTs self2) u of
                  None \<Rightarrow> True
                | Some lastTs \<Rightarrow> newPacketTs - lastTs \<ge> timedelta_mul_float queueRefreshDelta float_0_9)
            then updateQueue str_of env
                   (self2\<lparr>lastQueueUpdateTs := AList.update u newPacketTs (lastQueueUpdateTs self2)\<rparr>)
            else Returned self2))"

section \<open>Verification: the bubble sort of \<open>_patch_fixtures\<close>\<close>

text \<open>
  One pass of the inner loop carries the patch with the largest start channel seen so far to
  the right: \<open>bubble x xs\<close> is that pass over \<open>x # xs\<close>, written by recursion on the list.
\<close>

fun bubble :: "FixturePatch \<Rightarrow> FixturePatch list \<Rightarrow> FixturePatch list" where
  "bubble x [] = [x]"
| "bubble x (y # ys) =
     (if start_channel x > start_channel y then y # bubble x ys else x # bubble y ys)"

lemma fold_swap_step:
  "fold swap_step [length pre..<length pre + length ys] (pre @ x # ys) = pre @ bubble x ys"
proof (induction ys arbitrary: pre x)
  case Nil
  then show ?case by simp
next
  case (Cons y ys)
  have range: "[length pre..<length pre + length (y # ys)]
      = length pre # [length (pre @ [y])..<length (pre @ [y]) + length ys]"
    by (subst upt_rec) simp
  show ?case
  proof (cases "start_channel x > start_channel y")
    case True
    then have step: "swap_step (length pre) (pre @ x # y # ys) = (pre @ [y]) @ x # ys"
      by (simp add: swap_step_def nth_append list_update_append)
    show ?thesis
      unfolding range using Cons.IH [of "pre @ [y]" x] True
      by (simp only: fold_simps step) simp
  next
    case False
    then have step: "swap_step (length pre) (pre @ x # y # ys) = (pre @ [x]) @ y # ys"
      by (simp add: swap_step_def nth_append)
    have len: "length (pre @ [x]) = length (pre @ [y])" by simp
    show ?thesis
      unfolding range using Cons.IH [of "pre @ [x]" y] False
      by (simp only: fold_simps step len [symmetric]) simp
  qed
qed

lemma bubble_pass_Nil: "bubble_pass [] = []"
  by (simp add: bubble_pass_def)

lemma bubble_pass_Cons: "bubble_pass (x # xs) = bubble x xs"
  using fold_swap_step [of "[]" xs x] by (simp add: bubble_pass_def)

lemma mset_bubble: "mset (bubble x xs) = mset (x # xs)"
  by (induction xs arbitrary: x) auto

lemma length_bubble: "length (bubble x xs) = Suc (length xs)"
  by (induction xs arbitrary: x) auto

lemma filter_bubble:
  "filter (\<lambda>p. start_channel p = k) (bubble x xs) = filter (\<lambda>p. start_channel p = k) (x # xs)"
  by (induction xs arbitrary: x) auto

lemma bubble_last:
  "\<exists>ys m. bubble x xs = ys @ [m] \<and> (\<forall>z \<in> set ys. start_channel z \<le> start_channel m)"
proof (induction xs arbitrary: x)
  case Nil
  then show ?case by simp
next
  case (Cons y xs)
  show ?case
  proof (cases "start_channel x > start_channel y")
    case True
    obtain ys m where h: "bubble x xs = ys @ [m]" "\<forall>z \<in> set ys. start_channel z \<le> start_channel m"
      using Cons.IH [of x] by blast
    have "x \<in># mset (bubble x xs)" by (simp add: mset_bubble)
    then have "x \<in> set (ys @ [m])" using h(1) by (metis set_mset_mset)
    then have "start_channel x \<le> start_channel m" using h(2) by auto
    then have "bubble x (y # xs) = (y # ys) @ [m] \<and> (\<forall>z \<in> set (y # ys). start_channel z \<le> start_channel m)"
      using True h by auto
    then show ?thesis by blast
  next
    case False
    obtain ys m where h: "bubble y xs = ys @ [m]" "\<forall>z \<in> set ys. start_channel z \<le> start_channel m"
      using Cons.IH [of y] by blast
    have "y \<in># mset (bubble y xs)" by (simp add: mset_bubble)
    then have "y \<in> set (ys @ [m])" using h(1) by (metis set_mset_mset)
    then have "start_channel y \<le> start_channel m" using h(2) by auto
    then have "bubble x (y # xs) = (x # ys) @ [m] \<and> (\<forall>z \<in> set (x # ys). start_channel z \<le> start_channel m)"
      using False h by auto
    then show ?thesis by blast
  qed
qed

lemma bubble_sorted_tail:
  "sorted (map start_channel bs) \<Longrightarrow> \<forall>b \<in> set bs. start_channel x \<le> start_channel b
    \<Longrightarrow> bubble x bs = x # bs"
  by (induction bs arbitrary: x) auto

lemma bubble_append:
  "sorted (map start_channel bs) \<Longrightarrow>
   \<forall>a \<in> set (x # as). \<forall>b \<in> set bs. start_channel a \<le> start_channel b \<Longrightarrow>
   bubble x (as @ bs) = bubble x as @ bs"
proof (induction as arbitrary: x)
  case Nil
  then show ?case by (simp add: bubble_sorted_tail)
next
  case (Cons a as)
  then show ?case by auto
qed

definition settled :: "nat \<Rightarrow> FixturePatch list \<Rightarrow> bool" where
  "settled k xs \<longleftrightarrow>
     (\<exists>as bs. xs = as @ bs \<and> length bs = k \<and> sorted (map start_channel bs) \<and>
        (\<forall>a \<in> set as. \<forall>b \<in> set bs. start_channel a \<le> start_channel b))"

lemma settled_0: "settled 0 xs"
  by (simp add: settled_def)

lemma settled_pass:
  assumes "settled k xs" "k < length xs"
  shows "settled (Suc k) (bubble_pass xs)"
proof -
  obtain as bs where h: "xs = as @ bs" "length bs = k" "sorted (map start_channel bs)"
      "\<forall>a \<in> set as. \<forall>b \<in> set bs. start_channel a \<le> start_channel b"
    using assms(1) by (auto simp: settled_def)
  from assms(2) h(1,2) obtain a as' where as: "as = a # as'" by (cases as) auto
  have pass: "bubble_pass xs = bubble a as' @ bs"
    using h as by (simp add: bubble_pass_Cons bubble_append)
  obtain ys m where b: "bubble a as' = ys @ [m]" "\<forall>z \<in> set ys. start_channel z \<le> start_channel m"
    using bubble_last by blast
  have "set (ys @ [m]) = set (a # as')"
    using b(1) mset_bubble [of a as'] by (metis set_mset_mset)
  then have sub: "set ys \<subseteq> set as" "m \<in> set as" using as by auto
  have "bubble_pass xs = ys @ (m # bs)" using pass b by simp
  moreover have "length (m # bs) = Suc k" using h by simp
  moreover have "sorted (map start_channel (m # bs))" using h sub by auto
  moreover have "\<forall>a \<in> set ys. \<forall>b \<in> set (m # bs). start_channel a \<le> start_channel b"
    using h sub b by auto
  ultimately show ?thesis unfolding settled_def by blast
qed

lemma length_bubble_pass: "length (bubble_pass xs) = length xs"
  by (cases xs) (simp_all add: bubble_pass_Nil bubble_pass_Cons length_bubble)

lemma settled_passes:
  "k \<le> length xs \<Longrightarrow> settled k ((bubble_pass ^^ k) xs) \<and> length ((bubble_pass ^^ k) xs) = length xs"
proof (induction k)
  case 0
  then show ?case by (simp add: settled_0)
next
  case (Suc k)
  then show ?case by (simp add: settled_pass length_bubble_pass)
qed

lemma bubblesort_funpow: "bubblesort xs = (bubble_pass ^^ (length xs - 1)) xs"
proof -
  have "fold (\<lambda>k. f) [0..<n] x = (f ^^ n) x" for f :: "'a \<Rightarrow> 'a" and n x
    by (induction n arbitrary: x) (simp_all add: funpow_swap1)
  then show ?thesis by (simp add: bubblesort_def)
qed

lemma sorted_bubblesort: "sorted (map start_channel (bubblesort xs))"
proof (cases xs)
  case Nil
  then show ?thesis by (simp add: bubblesort_def)
next
  case (Cons x xs')
  let ?r = "(bubble_pass ^^ (length xs - 1)) xs"
  have "settled (length xs - 1) ?r" and len: "length ?r = length xs"
    using settled_passes [of "length xs - 1" xs] by simp_all
  then obtain as bs where h: "?r = as @ bs" "length bs = length xs - 1"
      "sorted (map start_channel bs)"
      "\<forall>a \<in> set as. \<forall>b \<in> set bs. start_channel a \<le> start_channel b"
    by (auto simp: settled_def)
  have "length as + length bs = length xs" using h(1) len by (metis length_append)
  then have "length as = 1" using h(2) Cons by simp
  then obtain a where "as = [a]" by (cases as) auto
  then have "sorted (map start_channel ?r)" using h by auto
  then show ?thesis by (simp add: bubblesort_funpow)
qed

lemma filter_bubble_pass:
  "filter (\<lambda>p. start_channel p = k) (bubble_pass xs) = filter (\<lambda>p. start_channel p = k) xs"
  by (cases xs) (simp_all add: bubble_pass_Nil bubble_pass_Cons filter_bubble del: filter.simps)

lemma mset_bubble_pass: "mset (bubble_pass xs) = mset xs"
  by (cases xs) (simp_all add: bubble_pass_Nil bubble_pass_Cons mset_bubble)

lemma filter_bubblesort:
  "filter (\<lambda>p. start_channel p = k) (bubblesort xs) = filter (\<lambda>p. start_channel p = k) xs"
proof -
  have "filter (\<lambda>p. start_channel p = k) ((bubble_pass ^^ n) xs) = filter (\<lambda>p. start_channel p = k) xs" for n
    by (induction n) (simp_all add: filter_bubble_pass)
  then show ?thesis by (simp add: bubblesort_funpow)
qed

lemma mset_bubblesort: "mset (bubblesort xs) = mset xs"
proof -
  have "mset ((bubble_pass ^^ n) xs) = mset xs" for n
    by (induction n) (simp_all add: mset_bubble_pass)
  then show ?thesis by (simp add: bubblesort_funpow)
qed

lemma bubblesort_sort_key: "bubblesort xs = sort_key start_channel xs"
proof (rule sym, rule properties_for_sort_key)
  show "mset (bubblesort xs) = mset xs" by (rule mset_bubblesort)
  show "sorted (map start_channel (bubblesort xs))" by (rule sorted_bubblesort)
  fix k
  have eq: "(\<lambda>x. start_channel k = start_channel x) = (\<lambda>p. start_channel p = start_channel k)"
    by auto
  show "filter (\<lambda>x. start_channel k = start_channel x) (bubblesort xs)
      = filter (\<lambda>x. start_channel k = start_channel x) xs"
    unfolding eq by (rule filter_bubblesort)
qed

section \<open>Verification: \<open>_validate_cfg\<close>\<close>

text \<open>
  The three rules of the specification, stated on the configuration, and the message they
  call for: \<open>output_lines cfg i\<close> are the lines for output \<open>i\<close> (its pin, when an earlier
  output has it, then for each strip its label, when an earlier strip of the configuration
  has it, and its size, when it does not fit).
\<close>

definition lookup :: "('k, 'v list) dict \<Rightarrow> 'k \<Rightarrow> 'v list" where
  "lookup d k = (case map_of d k of None \<Rightarrow> [] | Some vs \<Rightarrow> vs)"

definition fits :: "PinConfig \<Rightarrow> LedStrip \<Rightarrow> bool" where
  "fits pc s =
     (case from_string (PinConfig.pixel_type pc) of
        Inl e \<Rightarrow> False
      | Inr fx \<Rightarrow> LedStrip.start_channel s - 1 + LedStrip.pixel_count s * profile_size fx \<le> 512)"

definition pins :: "outputs \<Rightarrow> GPIO list" where
  "pins cfg = map (\<lambda>e. gpio (snd e)) cfg"

definition strip_labels :: "outputs \<Rightarrow> string list" where
  "strip_labels cfg = concat (map (\<lambda>e. map LedStrip.label (strips (snd e))) cfg)"

definition all_fit :: "outputs \<Rightarrow> bool" where
  "all_fit cfg = list_all (\<lambda>e. list_all (fits (snd e)) (strips (snd e))) cfg"

definition strip_lines :: "string list \<Rightarrow> OutputLabel \<Rightarrow> PinConfig \<Rightarrow> nat \<Rightarrow> logline list" where
  "strip_lines earlier out pc j =
     (let s = strips pc ! j
      in (if LedStrip.label s \<in> set earlier \<union> set (map LedStrip.label (take j (strips pc)))
          then [LabelUsedTwice out (LedStrip.label s)] else [])
         @ (if \<not> fits pc s then [DoesNotFit out (LedStrip.label s)] else []))"

definition output_lines :: "outputs \<Rightarrow> nat \<Rightarrow> logline list" where
  "output_lines cfg i =
     (let out = fst (cfg ! i); pc = snd (cfg ! i); before = take i cfg
      in (if gpio pc \<in> set (pins before) then [PinUsedTwice (gpio pc)] else [])
         @ concat (map (strip_lines (strip_labels before) out pc) [0..<length (strips pc)]))"

definition violations :: "outputs \<Rightarrow> logline list" where
  "violations cfg = concat (map (output_lines cfg) [0..<length cfg])"

lemma from_string_valid:
  "validate_fixture_type v \<Longrightarrow> \<exists>fx. from_string v = Inr fx"
  by (auto simp: validate_fixture_type_def getFixtureNames_def from_string_def Fixture_members_def)

lemma validate_strips_append:
  "validate_strips out pc (xs @ ys) v =
     (case validate_strips out pc xs v of Inl e \<Rightarrow> Inl e | Inr v' \<Rightarrow> validate_strips out pc ys v')"
  by (induction xs arbitrary: v) (auto split: sum.splits)

lemma validate_outputs_append:
  "validate_outputs (xs @ ys) v =
     (case validate_outputs xs v of Inl e \<Rightarrow> Inl e | Inr v' \<Rightarrow> validate_outputs ys v')"
  by (induction xs arbitrary: v) (auto split: sum.splits)

lemma validate_strip_step:
  assumes fx: "from_string (PinConfig.pixel_type pc) = Inr fx"
    and j: "j < length (strips pc)"
    and seen: "set (declared_labels v) = set earlier \<union> set (map LedStrip.label (take j (strips pc)))"
  shows "\<exists>v'. validate_strip out pc (strips pc ! j) v = Inr v'
      \<and> logmessage v' = logmessage v @ strip_lines earlier out pc j
      \<and> set (declared_labels v') = set earlier \<union> set (map LedStrip.label (take (Suc j) (strips pc)))
      \<and> declared_gpio v' = declared_gpio v
      \<and> tmp_valid v' = (tmp_valid v \<and> strip_lines earlier out pc j = [])"
  using fx j seen
  by (auto simp: validate_strip_def strip_lines_def fits_def Let_def DMX_UNI_SIZE_def
      take_Suc_conv_app_nth)

lemma validate_strips_take:
  assumes fx: "from_string (PinConfig.pixel_type pc) = Inr fx"
    and seen: "set (declared_labels v) = set earlier"
  shows "n \<le> length (strips pc) \<Longrightarrow>
    \<exists>v'. validate_strips out pc (take n (strips pc)) v = Inr v'
      \<and> logmessage v' = logmessage v @ concat (map (strip_lines earlier out pc) [0..<n])
      \<and> set (declared_labels v') = set earlier \<union> set (map LedStrip.label (take n (strips pc)))
      \<and> declared_gpio v' = declared_gpio v
      \<and> tmp_valid v' = (tmp_valid v \<and> concat (map (strip_lines earlier out pc) [0..<n]) = [])"
proof (induction n)
  case 0
  then show ?case using seen by simp
next
  case (Suc n)
  then obtain v1 where v1: "validate_strips out pc (take n (strips pc)) v = Inr v1"
      "logmessage v1 = logmessage v @ concat (map (strip_lines earlier out pc) [0..<n])"
      "set (declared_labels v1) = set earlier \<union> set (map LedStrip.label (take n (strips pc)))"
      "declared_gpio v1 = declared_gpio v"
      "tmp_valid v1 = (tmp_valid v \<and> concat (map (strip_lines earlier out pc) [0..<n]) = [])"
    by auto
  from Suc.prems have n: "n < length (strips pc)" by simp
  obtain v2 where v2: "validate_strip out pc (strips pc ! n) v1 = Inr v2"
      "logmessage v2 = logmessage v1 @ strip_lines earlier out pc n"
      "set (declared_labels v2) = set earlier \<union> set (map LedStrip.label (take (Suc n) (strips pc)))"
      "declared_gpio v2 = declared_gpio v1"
      "tmp_valid v2 = (tmp_valid v1 \<and> strip_lines earlier out pc n = [])"
    using validate_strip_step [OF fx n v1(3)] by blast
  have "validate_strips out pc (take (Suc n) (strips pc)) v = Inr v2"
    using n v1(1) v2(1) by (simp add: take_Suc_conv_app_nth validate_strips_append)
  then show ?case using v1 v2 by auto
qed


definition validation_start :: validation where
  "validation_start = \<lparr>tmp_valid = True, declared_gpio = [], declared_labels = [], logmessage = []\<rparr>"

lemma pins_take_Suc:
  "n < length cfg \<Longrightarrow> pins (take (Suc n) cfg) = pins (take n cfg) @ [gpio (snd (cfg ! n))]"
  by (simp add: pins_def take_Suc_conv_app_nth)

lemma strip_labels_take_Suc:
  "n < length cfg \<Longrightarrow> strip_labels (take (Suc n) cfg)
     = strip_labels (take n cfg) @ map LedStrip.label (strips (snd (cfg ! n)))"
  by (simp add: strip_labels_def take_Suc_conv_app_nth)

lemma all_fit_take_Suc:
  "n < length cfg \<Longrightarrow> all_fit (take (Suc n) cfg)
     = (all_fit (take n cfg) \<and> list_all (fits (snd (cfg ! n))) (strips (snd (cfg ! n))))"
  by (simp add: all_fit_def take_Suc_conv_app_nth)

lemma validate_output_step:
  assumes fx: "from_string (PinConfig.pixel_type (snd (cfg ! n))) = Inr fx"
    and n: "n < length cfg"
    and g: "set (declared_gpio v) = set (pins (take n cfg))"
    and l: "set (declared_labels v) = set (strip_labels (take n cfg))"
  shows "\<exists>v'. validate_output (cfg ! n) v = Inr v'
      \<and> logmessage v' = logmessage v @ output_lines cfg n
      \<and> set (declared_gpio v') = set (pins (take (Suc n) cfg))
      \<and> set (declared_labels v') = set (strip_labels (take (Suc n) cfg))
      \<and> tmp_valid v' = (tmp_valid v \<and> output_lines cfg n = [])"
proof -
  let ?pc = "snd (cfg ! n)" and ?out = "fst (cfg ! n)"
  let ?pin = "if gpio ?pc \<in> set (pins (take n cfg)) then [PinUsedTwice (gpio ?pc)] else []"
  let ?v1 = "if gpio ?pc \<in> set (declared_gpio v)
             then v\<lparr>logmessage := logmessage v @ [PinUsedTwice (gpio ?pc)], tmp_valid := False\<rparr>
             else v\<lparr>declared_gpio := declared_gpio v @ [gpio ?pc]\<rparr>"
  have v1: "logmessage ?v1 = logmessage v @ ?pin"
      "set (declared_gpio ?v1) = set (pins (take (Suc n) cfg))"
      "set (declared_labels ?v1) = set (strip_labels (take n cfg))"
      "tmp_valid ?v1 = (tmp_valid v \<and> ?pin = [])"
    using g l n by (auto simp: pins_take_Suc)
  obtain v' where v': "validate_strips ?out ?pc (take (length (strips ?pc)) (strips ?pc)) ?v1 = Inr v'"
      "logmessage v' = logmessage ?v1
         @ concat (map (strip_lines (strip_labels (take n cfg)) ?out ?pc) [0..<length (strips ?pc)])"
      "set (declared_labels v') = set (strip_labels (take n cfg))
         \<union> set (map LedStrip.label (take (length (strips ?pc)) (strips ?pc)))"
      "declared_gpio v' = declared_gpio ?v1"
      "tmp_valid v' = (tmp_valid ?v1
         \<and> concat (map (strip_lines (strip_labels (take n cfg)) ?out ?pc) [0..<length (strips ?pc)]) = [])"
    using validate_strips_take [OF fx v1(3), of "length (strips ?pc)" ?out] by blast
  have lines: "output_lines cfg n = ?pin
      @ concat (map (strip_lines (strip_labels (take n cfg)) ?out ?pc) [0..<length (strips ?pc)])"
    by (simp add: output_lines_def Let_def)
  have "validate_output (cfg ! n) v = Inr v'"
    using v'(1) by (simp add: validate_output_def Let_def)
  moreover have "logmessage v' = logmessage v @ output_lines cfg n"
    using v'(2) v1(1) lines by simp
  moreover have "set (declared_gpio v') = set (pins (take (Suc n) cfg))"
    using v'(4) v1(2) by simp
  moreover have "set (declared_labels v') = set (strip_labels (take (Suc n) cfg))"
    using v'(3) n by (simp add: strip_labels_take_Suc)
  moreover have "tmp_valid v' = (tmp_valid v \<and> output_lines cfg n = [])"
    using v'(5) v1(4) lines by simp
  ultimately show ?thesis by blast
qed

lemma validate_outputs_take:
  assumes types: "\<forall>e \<in> set cfg. validate_fixture_type (PinConfig.pixel_type (snd e))"
  shows "n \<le> length cfg \<Longrightarrow>
    \<exists>v'. validate_outputs (take n cfg) validation_start = Inr v'
      \<and> logmessage v' = concat (map (output_lines cfg) [0..<n])
      \<and> set (declared_gpio v') = set (pins (take n cfg))
      \<and> set (declared_labels v') = set (strip_labels (take n cfg))
      \<and> tmp_valid v' = (logmessage v' = [])"
proof (induction n)
  case 0
  then show ?case by (simp add: validation_start_def pins_def strip_labels_def)
next
  case (Suc n)
  then obtain v1 where v1: "validate_outputs (take n cfg) validation_start = Inr v1"
      "logmessage v1 = concat (map (output_lines cfg) [0..<n])"
      "set (declared_gpio v1) = set (pins (take n cfg))"
      "set (declared_labels v1) = set (strip_labels (take n cfg))"
      "tmp_valid v1 = (logmessage v1 = [])"
    by auto
  from Suc.prems have n: "n < length cfg" by simp
  then have "validate_fixture_type (PinConfig.pixel_type (snd (cfg ! n)))"
    using types by simp
  then obtain fx where fx: "from_string (PinConfig.pixel_type (snd (cfg ! n))) = Inr fx"
    using from_string_valid by blast
  obtain v2 where v2: "validate_output (cfg ! n) v1 = Inr v2"
      "logmessage v2 = logmessage v1 @ output_lines cfg n"
      "set (declared_gpio v2) = set (pins (take (Suc n) cfg))"
      "set (declared_labels v2) = set (strip_labels (take (Suc n) cfg))"
      "tmp_valid v2 = (tmp_valid v1 \<and> output_lines cfg n = [])"
    using validate_output_step [OF fx n v1(3) v1(4)] by blast
  have "validate_outputs (take (Suc n) cfg) validation_start = Inr v2"
    using n v1(1) v2(1) by (simp add: take_Suc_conv_app_nth validate_outputs_append)
  then show ?case using v1 v2 by auto
qed

lemma validate_cfg_violations:
  assumes "\<forall>e \<in> set cfg. validate_fixture_type (PinConfig.pixel_type (snd e))"
  shows "validate_cfg cfg =
     (if violations cfg = [] then Inr () else Inl (ValueError_config (violations cfg)))"
  using validate_outputs_take [OF assms, of "length cfg"]
  by (auto simp: validate_cfg_def violations_def validation_start_def)

lemma strip_lines_none:
  "m \<le> length (strips pc) \<Longrightarrow>
   (\<forall>j<m. strip_lines earlier out pc j = []) \<longleftrightarrow>
     distinct (map LedStrip.label (take m (strips pc)))
     \<and> set earlier \<inter> set (map LedStrip.label (take m (strips pc))) = {}
     \<and> list_all (fits pc) (take m (strips pc))"
proof (induction m)
  case 0
  then show ?case by simp
next
  case (Suc m)
  then have m: "m < length (strips pc)" by simp
  have "(\<forall>j<Suc m. strip_lines earlier out pc j = []) \<longleftrightarrow>
      (\<forall>j<m. strip_lines earlier out pc j = []) \<and> strip_lines earlier out pc m = []"
    by (auto simp: less_Suc_eq)
  also have "\<dots> \<longleftrightarrow> distinct (map LedStrip.label (take m (strips pc)))
     \<and> set earlier \<inter> set (map LedStrip.label (take m (strips pc))) = {}
     \<and> list_all (fits pc) (take m (strips pc))
     \<and> LedStrip.label (strips pc ! m) \<notin> set earlier
     \<and> LedStrip.label (strips pc ! m) \<notin> set (map LedStrip.label (take m (strips pc)))
     \<and> fits pc (strips pc ! m)"
    using Suc.IH m by (auto simp: strip_lines_def Let_def)
  also have "\<dots> \<longleftrightarrow> distinct (map LedStrip.label (take (Suc m) (strips pc)))
     \<and> set earlier \<inter> set (map LedStrip.label (take (Suc m) (strips pc))) = {}
     \<and> list_all (fits pc) (take (Suc m) (strips pc))"
    using m by (auto simp: take_Suc_conv_app_nth)
  finally show ?case .
qed

lemma output_lines_none:
  "n \<le> length cfg \<Longrightarrow>
   (\<forall>i<n. output_lines cfg i = []) \<longleftrightarrow>
     distinct (pins (take n cfg)) \<and> distinct (strip_labels (take n cfg)) \<and> all_fit (take n cfg)"
proof (induction n)
  case 0
  then show ?case by (simp add: pins_def strip_labels_def all_fit_def)
next
  case (Suc n)
  then have n: "n < length cfg" by simp
  let ?pc = "snd (cfg ! n)"
  have one: "output_lines cfg n = [] \<longleftrightarrow>
      gpio ?pc \<notin> set (pins (take n cfg))
      \<and> distinct (map LedStrip.label (strips ?pc))
      \<and> set (strip_labels (take n cfg)) \<inter> set (map LedStrip.label (strips ?pc)) = {}
      \<and> list_all (fits ?pc) (strips ?pc)"
    using strip_lines_none [of "length (strips ?pc)" ?pc "strip_labels (take n cfg)" "fst (cfg ! n)"]
    by (auto simp: output_lines_def Let_def)
  have "(\<forall>i<Suc n. output_lines cfg i = []) \<longleftrightarrow>
      (\<forall>i<n. output_lines cfg i = []) \<and> output_lines cfg n = []"
    by (auto simp: less_Suc_eq)
  also have "\<dots> \<longleftrightarrow> distinct (pins (take (Suc n) cfg))
      \<and> distinct (strip_labels (take (Suc n) cfg)) \<and> all_fit (take (Suc n) cfg)"
    using Suc.IH n unfolding one
    by (auto simp: pins_take_Suc strip_labels_take_Suc all_fit_take_Suc)
  finally show ?case .
qed

lemma violations_none:
  "violations cfg = [] \<longleftrightarrow> distinct (pins cfg) \<and> distinct (strip_labels cfg) \<and> all_fit cfg"
  using output_lines_none [of "length cfg" cfg] by (auto simp: violations_def)

section \<open>Verification: the two indexes\<close>

text \<open>
  \<open>declared_patches cfg\<close> are the patches the configuration calls for, in declaration order:
  strip \<open>j\<close> of an output gets queue position \<open>j\<close> and the output's pin and pixel type.
\<close>

definition mk_patch :: "PinConfig \<Rightarrow> Fixture \<Rightarrow> nat \<times> LedStrip \<Rightarrow> FixturePatch" where
  "mk_patch pc fx js =
     \<lparr>FixturePatchBase.label = LedStrip.label (snd js),
      FixturePatchBase.pixel_count = LedStrip.pixel_count (snd js),
      FixturePatchBase.universe = LedStrip.universe (snd js),
      FixturePatchBase.start_channel = LedStrip.start_channel (snd js),
      FixturePatchBase.output_gpio = gpio pc,
      FixturePatchBase.pos_in_out_queue = int (fst js),
      FixturePatch.pixel_type = fx\<rparr>"

definition output_patches :: "PinConfig \<Rightarrow> FixturePatch list" where
  "output_patches pc =
     (case from_string (PinConfig.pixel_type pc) of
        Inl e \<Rightarrow> []
      | Inr fx \<Rightarrow> map (mk_patch pc fx) (enumerate 0 (strips pc)))"

definition declared_patches :: "outputs \<Rightarrow> FixturePatch list" where
  "declared_patches cfg = concat (map (\<lambda>e. output_patches (snd e)) cfg)"

lemma lookup_dict_append:
  "lookup (dict_append k v d) k' = lookup d k' @ (if k' = k then [v] else [])"
  by (simp add: lookup_def dict_append_def update_conv')

lemma lookup_update:
  "lookup (AList.update k v d) k' = (if k' = k then v else lookup d k')"
  by (simp add: lookup_def update_conv')

lemma lookup_Nil: "lookup [] k = []"
  by (simp add: lookup_def)

lemma patch_strips_result:
  assumes fx: "from_string (PinConfig.pixel_type pc) = Inr fx"
  shows "\<exists>m'. patch_strips pc ss (m, int q) = Inr (m', int (q + length ss))
      \<and> (\<forall>g. lookup (by_out m') g
            = lookup (by_out m) g @ (if g = gpio pc then map (mk_patch pc fx) (enumerate q ss) else []))
      \<and> (\<forall>u. lookup (by_uni m') u
            = lookup (by_uni m) u @ filter (\<lambda>p. FixturePatchBase.universe p = u) (map (mk_patch pc fx) (enumerate q ss)))"
proof (induction ss arbitrary: m q)
  case Nil
  then show ?case by simp
next
  case (Cons s ss)
  let ?p = "mk_patch pc fx (q, s)"
  let ?m1 = "m\<lparr>by_out := dict_append (gpio pc) ?p (by_out m),
               by_uni := dict_append (LedStrip.universe s) ?p (by_uni m)\<rparr>"
  have step: "patch_strip pc s (m, int q) = Inr (?m1, int (Suc q))"
    using fx by (simp add: patch_strip_def mk_patch_def Let_def)
  obtain m' where m': "patch_strips pc ss (?m1, int (Suc q)) = Inr (m', int (Suc q + length ss))"
      "\<forall>g. lookup (by_out m') g
            = lookup (by_out ?m1) g @ (if g = gpio pc then map (mk_patch pc fx) (enumerate (Suc q) ss) else [])"
      "\<forall>u. lookup (by_uni m') u
            = lookup (by_uni ?m1) u @ filter (\<lambda>p. FixturePatchBase.universe p = u) (map (mk_patch pc fx) (enumerate (Suc q) ss))"
    using Cons.IH [of ?m1 "Suc q"] by blast
  have u: "FixturePatchBase.universe ?p = LedStrip.universe s" by (simp add: mk_patch_def)
  have "patch_strips pc (s # ss) (m, int q) = Inr (m', int (q + length (s # ss)))"
    using step m'(1) by simp
  moreover have "\<forall>g. lookup (by_out m') g
      = lookup (by_out m) g @ (if g = gpio pc then map (mk_patch pc fx) (enumerate q (s # ss)) else [])"
    using m'(2) by (simp add: lookup_dict_append)
  moreover have "\<forall>u. lookup (by_uni m') u
      = lookup (by_uni m) u @ filter (\<lambda>p. FixturePatchBase.universe p = u) (map (mk_patch pc fx) (enumerate q (s # ss)))"
    using m'(3) u by (simp add: lookup_dict_append)
  ultimately show ?case by blast
qed

lemma patch_output_result:
  assumes fx: "validate_fixture_type (PinConfig.pixel_type (snd e))"
  shows "\<exists>m'. patch_output e m = Inr m'
      \<and> (\<forall>g. lookup (by_out m') g
            = (if g = gpio (snd e) then output_patches (snd e) else lookup (by_out m) g))
      \<and> (\<forall>u. lookup (by_uni m') u
            = lookup (by_uni m) u @ filter (\<lambda>p. FixturePatchBase.universe p = u) (output_patches (snd e)))"
proof -
  obtain fx where fx: "from_string (PinConfig.pixel_type (snd e)) = Inr fx"
    using assms from_string_valid by blast
  let ?m0 = "m\<lparr>by_out := AList.update (gpio (snd e)) [] (by_out m)\<rparr>"
  obtain m' where m': "patch_strips (snd e) (strips (snd e)) (?m0, int 0)
        = Inr (m', int (0 + length (strips (snd e))))"
      "\<forall>g. lookup (by_out m') g = lookup (by_out ?m0) g
            @ (if g = gpio (snd e) then map (mk_patch (snd e) fx) (enumerate 0 (strips (snd e))) else [])"
      "\<forall>u. lookup (by_uni m') u = lookup (by_uni ?m0) u
            @ filter (\<lambda>p. FixturePatchBase.universe p = u) (map (mk_patch (snd e) fx) (enumerate 0 (strips (snd e))))"
    using patch_strips_result [OF fx, of "strips (snd e)" ?m0 0] by blast
  have "patch_output e m = Inr m'"
    using m'(1) by (simp add: patch_output_def Let_def)
  moreover have "\<forall>g. lookup (by_out m') g
      = (if g = gpio (snd e) then output_patches (snd e) else lookup (by_out m) g)"
    using m'(2) fx by (simp add: output_patches_def lookup_update)
  moreover have "\<forall>u. lookup (by_uni m') u
      = lookup (by_uni m) u @ filter (\<lambda>p. FixturePatchBase.universe p = u) (output_patches (snd e))"
    using m'(3) fx by (simp add: output_patches_def)
  ultimately show ?thesis by blast
qed

lemma patch_outputs_result:
  assumes "\<forall>e \<in> set cfg. validate_fixture_type (PinConfig.pixel_type (snd e))"
  shows "\<exists>m'. patch_outputs cfg m = Inr m'
      \<and> (\<forall>g. set (lookup (by_out m') g) \<subseteq> set (lookup (by_out m) g) \<union> set (declared_patches cfg))
      \<and> (\<forall>u. lookup (by_uni m') u
            = lookup (by_uni m) u @ filter (\<lambda>p. FixturePatchBase.universe p = u) (declared_patches cfg))"
  using assms
proof (induction cfg arbitrary: m)
  case Nil
  then show ?case by (simp add: declared_patches_def)
next
  case (Cons e cfg)
  obtain m1 where m1: "patch_output e m = Inr m1"
      "\<forall>g. lookup (by_out m1) g
            = (if g = gpio (snd e) then output_patches (snd e) else lookup (by_out m) g)"
      "\<forall>u. lookup (by_uni m1) u
            = lookup (by_uni m) u @ filter (\<lambda>p. FixturePatchBase.universe p = u) (output_patches (snd e))"
    using patch_output_result [of e m] Cons.prems by auto
  obtain m' where m': "patch_outputs cfg m1 = Inr m'"
      "\<forall>g. set (lookup (by_out m') g) \<subseteq> set (lookup (by_out m1) g) \<union> set (declared_patches cfg)"
      "\<forall>u. lookup (by_uni m') u
            = lookup (by_uni m1) u @ filter (\<lambda>p. FixturePatchBase.universe p = u) (declared_patches cfg)"
    using Cons.IH [of m1] Cons.prems by auto
  have "patch_outputs (e # cfg) m = Inr m'" using m1(1) m'(1) by simp
  moreover have "\<forall>g. set (lookup (by_out m') g)
      \<subseteq> set (lookup (by_out m) g) \<union> set (declared_patches (e # cfg))"
  proof
    fix g
    have "set (lookup (by_out m1) g) \<subseteq> set (lookup (by_out m) g) \<union> set (output_patches (snd e))"
      using m1(2) by auto
    then show "set (lookup (by_out m') g)
        \<subseteq> set (lookup (by_out m) g) \<union> set (declared_patches (e # cfg))"
      using m'(2) by (auto simp: declared_patches_def)
  qed
  moreover have "\<forall>u. lookup (by_uni m') u
      = lookup (by_uni m) u @ filter (\<lambda>p. FixturePatchBase.universe p = u) (declared_patches (e # cfg))"
    using m'(3) m1(3) by (simp add: declared_patches_def)
  ultimately show ?case by blast
qed

lemma lookup_map_bubblesort:
  "lookup (map (\<lambda>(uni, ps). (uni, bubblesort ps)) d) u = bubblesort (lookup d u)"
proof -
  have "map_of (map (\<lambda>(uni, ps). (uni, bubblesort ps)) d) u = map_option bubblesort (map_of d u)"
    by (simp add: map_of_map)
  then show ?thesis by (auto simp: lookup_def bubblesort_def split: option.splits)
qed

lemma patch_fixtures_ok:
  assumes types: "\<forall>e \<in> set cfg. validate_fixture_type (PinConfig.pixel_type (snd e))"
    and ok: "violations cfg = []"
  shows "\<exists>m'. patch_fixtures cfg self = (None, m')
      \<and> (\<forall>g. set (get_fixtures_by_out m' g) \<subseteq> set (declared_patches cfg))
      \<and> (\<forall>u. get_fixtures_by_uni m' u
            = bubblesort (filter (\<lambda>p. FixturePatchBase.universe p = u) (declared_patches cfg)))"
proof -
  let ?m0 = "self\<lparr>by_out := [], by_uni := []\<rparr>"
  obtain m1 where m1: "patch_outputs cfg ?m0 = Inr m1"
      "\<forall>g. set (lookup (by_out m1) g) \<subseteq> set (lookup (by_out ?m0) g) \<union> set (declared_patches cfg)"
      "\<forall>u. lookup (by_uni m1) u
            = lookup (by_uni ?m0) u @ filter (\<lambda>p. FixturePatchBase.universe p = u) (declared_patches cfg)"
    using patch_outputs_result [OF types, of ?m0] by blast
  let ?m' = "m1\<lparr>by_uni := map (\<lambda>(uni, ps). (uni, bubblesort ps)) (by_uni m1)\<rparr>"
  have "patch_fixtures cfg self = (None, ?m')"
    using m1(1) ok by (simp add: patch_fixtures_def validate_cfg_violations [OF types])
  moreover have "\<forall>g. set (get_fixtures_by_out ?m' g) \<subseteq> set (declared_patches cfg)"
    using m1(2) by (simp add: get_fixtures_by_out_def lookup_def [symmetric] lookup_Nil)
  moreover have "\<forall>u. get_fixtures_by_uni ?m' u
      = bubblesort (filter (\<lambda>p. FixturePatchBase.universe p = u) (declared_patches cfg))"
    using m1(3)
    by (simp add: get_fixtures_by_uni_def lookup_def [symmetric] lookup_Nil lookup_map_bubblesort)
  ultimately show ?thesis by blast
qed

lemma FullConfig_types:
  "FullConfig cfg \<Longrightarrow> \<forall>e \<in> set cfg. validate_fixture_type (PinConfig.pixel_type (snd e))"
  by (auto simp: FullConfig_def list_all_iff)

lemma patch_fixtures_None:
  assumes "FullConfig cfg" and "patch_fixtures cfg self = (None, m)"
  shows "violations cfg = []"
  using assms validate_cfg_violations [OF FullConfig_types [OF assms(1)]]
  by (auto simp: patch_fixtures_def split: if_splits)

lemma declared_patch_fits:
  assumes "all_fit cfg" and "p \<in> set (declared_patches cfg)"
  shows "end_channel p \<le> 512"
proof -
  from assms(2) obtain e where e: "e \<in> set cfg" "p \<in> set (output_patches (snd e))"
    by (auto simp: declared_patches_def)
  obtain fx js where fx: "from_string (PinConfig.pixel_type (snd e)) = Inr fx"
      and js: "js \<in> set (enumerate 0 (strips (snd e)))" and p: "p = mk_patch (snd e) fx js"
  proof (cases "from_string (PinConfig.pixel_type (snd e))")
    case (Inl err)
    then show ?thesis using e(2) by (simp add: output_patches_def)
  next
    case (Inr fx)
    then show ?thesis using e(2) that by (auto simp: output_patches_def)
  qed
  obtain a b where ab: "js = (a, b)" by fastforce
  then have "(a, b) \<in> set (zip [0..<0 + length (strips (snd e))] (strips (snd e)))"
    using js by (simp add: enumerate_eq_zip)
  then have "b \<in> set (strips (snd e))" by (rule set_zip_rightD)
  then have "snd js \<in> set (strips (snd e))" using ab by simp
  then have "fits (snd e) (snd js)"
    using assms(1) e(1) by (auto simp: all_fit_def list_all_iff)
  then show ?thesis using fx p by (simp add: fits_def end_channel_def mk_patch_def)
qed

text \<open>
  Claim C6. In a built table the by-universe query returns, for every universe, exactly the
  strips declared on it (\<open>declared_patches\<close>, in declaration order), sorted ascending by start
  channel; strips with equal start channels keep their declaration order, so the result is the
  stable sort of the declared strips. A universe that is not a key of the index gives the empty
  list; the query has no error result.
\<close>

theorem by_uni_sorted_stable:
  assumes "FullConfig cfg" and "patch_fixtures cfg self = (None, m)"
  shows "mset (get_fixtures_by_uni m u) = mset (filter (\<lambda>p. FixturePatchBase.universe p = u) (declared_patches cfg))
    \<and> sorted (map start_channel (get_fixtures_by_uni m u))
    \<and> (\<forall>k. filter (\<lambda>p. start_channel p = k) (get_fixtures_by_uni m u)
           = filter (\<lambda>p. start_channel p = k)
               (filter (\<lambda>p. FixturePatchBase.universe p = u) (declared_patches cfg)))
    \<and> get_fixtures_by_uni m u
         = sort_key start_channel (filter (\<lambda>p. FixturePatchBase.universe p = u) (declared_patches cfg))
    \<and> (u \<notin> set (get_universe_list m) \<longrightarrow> get_fixtures_by_uni m u = [])"
proof -
  have v: "violations cfg = []" using assms by (rule patch_fixtures_None)
  obtain m' where m': "patch_fixtures cfg self = (None, m')"
      "\<forall>u. get_fixtures_by_uni m' u
            = bubblesort (filter (\<lambda>p. FixturePatchBase.universe p = u) (declared_patches cfg))"
    using patch_fixtures_ok [OF FullConfig_types [OF assms(1)] v, of self] by blast
  then have r: "get_fixtures_by_uni m u
      = bubblesort (filter (\<lambda>p. FixturePatchBase.universe p = u) (declared_patches cfg))"
    using assms(2) by simp
  have "u \<notin> set (get_universe_list m) \<longrightarrow> get_fixtures_by_uni m u = []"
    by (simp add: get_universe_list_def keys_def get_fixtures_by_uni_def
        map_of_eq_None_iff [symmetric])
  then show ?thesis
    unfolding r
    by (simp add: mset_bubblesort sorted_bubblesort filter_bubblesort bubblesort_sort_key [symmetric]
        del: filter_filter)
qed

text \<open>
  Claim C5. A configuration with a strip that does not fit is rejected by the validation, and
  in every table that was built each strip, whichever index it is read from, has
  \<open>end_channel = start_channel + pixel_count * profile_size - 1\<close> and \<open>end_channel \<le> 512\<close>.
\<close>

theorem end_channel_within_universe:
  assumes "FullConfig cfg"
  shows "(\<not> all_fit cfg \<longrightarrow>
           (\<exists>msg. validate_cfg cfg = Inl (ValueError_config msg))
           \<and> fst (patch_fixtures cfg self) \<noteq> None)
    \<and> (\<forall>m. patch_fixtures cfg self = (None, m) \<longrightarrow>
          (\<forall>g. \<forall>p \<in> set (get_fixtures_by_out m g).
             end_channel p = start_channel p + pixel_count p * profile_size (pixel_type p) - 1
             \<and> end_channel p \<le> 512)
        \<and> (\<forall>u. \<forall>p \<in> set (get_fixtures_by_uni m u).
             end_channel p = start_channel p + pixel_count p * profile_size (pixel_type p) - 1
             \<and> end_channel p \<le> 512))"
proof (intro conjI)
  show "\<not> all_fit cfg \<longrightarrow>
      (\<exists>msg. validate_cfg cfg = Inl (ValueError_config msg)) \<and> fst (patch_fixtures cfg self) \<noteq> None"
  proof
    assume nf: "\<not> all_fit cfg"
    then have "violations cfg \<noteq> []" by (simp add: violations_none)
    then have bad: "validate_cfg cfg = Inl (ValueError_config (violations cfg))"
      using validate_cfg_violations [OF FullConfig_types [OF assms]] by simp
    then show "(\<exists>msg. validate_cfg cfg = Inl (ValueError_config msg))
        \<and> fst (patch_fixtures cfg self) \<noteq> None"
      by (simp add: patch_fixtures_def)
  qed
  show "\<forall>m. patch_fixtures cfg self = (None, m) \<longrightarrow>
          (\<forall>g. \<forall>p \<in> set (get_fixtures_by_out m g).
             end_channel p = start_channel p + pixel_count p * profile_size (pixel_type p) - 1
             \<and> end_channel p \<le> 512)
        \<and> (\<forall>u. \<forall>p \<in> set (get_fixtures_by_uni m u).
             end_channel p = start_channel p + pixel_count p * profile_size (pixel_type p) - 1
             \<and> end_channel p \<le> 512)"
  proof (intro allI impI)
    fix m
    assume built: "patch_fixtures cfg self = (None, m)"
    have v: "violations cfg = []" using assms built by (rule patch_fixtures_None)
    then have fit: "all_fit cfg" by (simp add: violations_none)
    obtain m' where m': "patch_fixtures cfg self = (None, m')"
        "\<forall>g. set (get_fixtures_by_out m' g) \<subseteq> set (declared_patches cfg)"
        "\<forall>u. get_fixtures_by_uni m' u
              = bubblesort (filter (\<lambda>p. FixturePatchBase.universe p = u) (declared_patches cfg))"
      using patch_fixtures_ok [OF FullConfig_types [OF assms] v, of self] by blast
    then have m: "m' = m" using built by simp
    have out: "set (get_fixtures_by_out m g) \<subseteq> set (declared_patches cfg)" for g
      using m'(2) m by simp
    have "set (get_fixtures_by_uni m u)
        = set (filter (\<lambda>p. FixturePatchBase.universe p = u) (declared_patches cfg))" for u
      using m'(3) m mset_bubblesort by (metis set_mset_mset)
    then have uni: "set (get_fixtures_by_uni m u) \<subseteq> set (declared_patches cfg)" for u
      by auto
    have ec: "end_channel p = start_channel p + pixel_count p * profile_size (pixel_type p) - 1"
      for p by (simp add: end_channel_def)
    show "(\<forall>g. \<forall>p \<in> set (get_fixtures_by_out m g).
             end_channel p = start_channel p + pixel_count p * profile_size (pixel_type p) - 1
             \<and> end_channel p \<le> 512)
        \<and> (\<forall>u. \<forall>p \<in> set (get_fixtures_by_uni m u).
             end_channel p = start_channel p + pixel_count p * profile_size (pixel_type p) - 1
             \<and> end_channel p \<le> 512)"
      using out uni declared_patch_fits [OF fit] ec by blast
  qed
qed

text \<open>
  Claim C4. When a configuration breaks a rule (a pin used by two outputs, a label used by two
  strips, a strip that does not fit a universe), \<open>_validate_cfg\<close> raises one \<open>ValueError\<close>
  whose message is \<open>violations cfg\<close>: a line for every offender of the whole configuration,
  in configuration order. \<open>_patch_fixtures\<close> raises it with the manager unchanged, and the
  constructor raises it with both indexes empty.
\<close>

theorem validate_cfg_collects_all_violations:
  assumes "FullConfig cfg"
    and "\<not> (distinct (pins cfg) \<and> distinct (strip_labels cfg) \<and> all_fit cfg)"
  shows "violations cfg \<noteq> []
    \<and> validate_cfg cfg = Inl (ValueError_config (violations cfg))
    \<and> patch_fixtures cfg self = (Some (ValueError_config (violations cfg)), self)
    \<and> FixtureManager_init cfg
        = (Some (ValueError_config (violations cfg)), \<lparr>by_out = [], by_uni = []\<rparr>)"
proof -
  have v: "violations cfg \<noteq> []" using assms(2) by (simp add: violations_none)
  then have bad: "validate_cfg cfg = Inl (ValueError_config (violations cfg))"
    using validate_cfg_violations [OF FullConfig_types [OF assms(1)]] by simp
  then have "patch_fixtures cfg s = (Some (ValueError_config (violations cfg)), s)" for s
    by (simp add: patch_fixtures_def)
  then show ?thesis using v bad by (simp add: FixtureManager_init_def)
qed

section \<open>Two configurations, and the claims on them\<close>

text \<open>
  \<open>example_cfg\<close> is the specification's example: two strips on universe 1, the one that starts
  at channel 31 declared before the one that starts at channel 1. \<open>broken_cfg\<close> breaks each
  rule once: both outputs use pin 18, both strips are called \<open>a\<close>, and the second strip ends
  at channel 529.
\<close>

definition example_cfg :: outputs where
  "example_cfg =
     [(OUT1, \<lparr>gpio = gpio18, PinConfig.pixel_type = ''rgb8'',
              strips = [\<lparr>LedStrip.label = ''late'', LedStrip.pixel_count = 5,
                          LedStrip.universe = 1, LedStrip.start_channel = 31\<rparr>,
                        \<lparr>LedStrip.label = ''early'', LedStrip.pixel_count = 10,
                          LedStrip.universe = 1, LedStrip.start_channel = 1\<rparr>]\<rparr>)]"

definition broken_cfg :: outputs where
  "broken_cfg =
     [(OUT1, \<lparr>gpio = gpio18, PinConfig.pixel_type = ''rgb8'',
              strips = [\<lparr>LedStrip.label = ''a'', LedStrip.pixel_count = 10,
                          LedStrip.universe = 1, LedStrip.start_channel = 1\<rparr>]\<rparr>),
      (OUT2, \<lparr>gpio = gpio18, PinConfig.pixel_type = ''rgb8'',
              strips = [\<lparr>LedStrip.label = ''a'', LedStrip.pixel_count = 10,
                          LedStrip.universe = 1, LedStrip.start_channel = 500\<rparr>]\<rparr>)]"


lemma patch_fixtures_builds:
  assumes "FullConfig cfg" and "violations cfg = []"
  shows "patch_fixtures cfg self = (None, snd (patch_fixtures cfg self))"
  using patch_fixtures_ok [OF FullConfig_types [OF assms(1)] assms(2), of self] by auto

lemma example_cfg_FullConfig: "FullConfig example_cfg"
  by (simp add: FullConfig_def keys_def validate_fixture_type_def getFixtureNames_def
      Fixture_members_def example_cfg_def)

lemma broken_cfg_FullConfig: "FullConfig broken_cfg"
  by (simp add: FullConfig_def keys_def validate_fixture_type_def getFixtureNames_def
      Fixture_members_def broken_cfg_def)

lemma example_cfg_rules:
  "distinct (pins example_cfg) \<and> distinct (strip_labels example_cfg) \<and> all_fit example_cfg"
  by (simp add: example_cfg_def pins_def strip_labels_def all_fit_def fits_def from_string_def
      Fixture_members_def profile_size_def)

lemma broken_cfg_rules:
  "\<not> all_fit broken_cfg \<and> \<not> distinct (pins broken_cfg) \<and> \<not> distinct (strip_labels broken_cfg)"
  by (simp add: broken_cfg_def pins_def strip_labels_def all_fit_def fits_def from_string_def
      Fixture_members_def profile_size_def)

lemma broken_cfg_violations:
  "violations broken_cfg = [PinUsedTwice gpio18, LabelUsedTwice OUT2 ''a'', DoesNotFit OUT2 ''a'']"
  by (simp add: violations_def output_lines_def strip_lines_def broken_cfg_def pins_def
      strip_labels_def fits_def from_string_def Fixture_members_def profile_size_def
      upt_rec [of 0] Let_def)

lemma example_cfg_declared:
  "map start_channel (sort_key start_channel
     (filter (\<lambda>p. FixturePatchBase.universe p = 1) (declared_patches example_cfg))) = [1, 31]"
  by (simp add: declared_patches_def output_patches_def example_cfg_def from_string_def
      Fixture_members_def mk_patch_def enumerate_eq_zip upt_rec [of 0])

definition example_manager :: FixtureManager where
  "example_manager = snd (FixtureManager_init example_cfg)"

lemma example_cfg_built:
  "patch_fixtures example_cfg \<lparr>by_out = [], by_uni = []\<rparr> = (None, example_manager)"
proof -
  have "violations example_cfg = []"
    using example_cfg_rules by (simp add: violations_none)
  then show ?thesis
    unfolding example_manager_def FixtureManager_init_def
    by (rule patch_fixtures_builds [OF example_cfg_FullConfig])
qed

theorem by_uni_sorted_stable_witness:
  "FullConfig example_cfg \<and> FixtureManager_init example_cfg = (None, example_manager)
   \<and> map start_channel (get_fixtures_by_uni example_manager 1) = [1, 31]"
proof -
  have "get_fixtures_by_uni example_manager 1
      = sort_key start_channel (filter (\<lambda>p. FixturePatchBase.universe p = 1) (declared_patches example_cfg))"
    using by_uni_sorted_stable [OF example_cfg_FullConfig example_cfg_built, of 1] by blast
  then have "map start_channel (get_fixtures_by_uni example_manager 1) = [1, 31]"
    by (simp only: example_cfg_declared)
  moreover have "FixtureManager_init example_cfg = (None, example_manager)"
    unfolding FixtureManager_init_def by (rule example_cfg_built)
  ultimately show ?thesis using example_cfg_FullConfig by blast
qed

theorem end_channel_within_universe_witness:
  "FullConfig example_cfg \<and> FixtureManager_init example_cfg = (None, example_manager)
   \<and> list_all (\<lambda>p. end_channel p \<le> 512) (get_fixtures_by_uni example_manager 1)
   \<and> list_all (\<lambda>p. end_channel p \<le> 512) (get_fixtures_by_out example_manager gpio18)
   \<and> FullConfig broken_cfg \<and> \<not> all_fit broken_cfg \<and> fst (FixtureManager_init broken_cfg) \<noteq> None"
proof -
  have bad: "fst (FixtureManager_init broken_cfg) \<noteq> None"
    unfolding FixtureManager_init_def
    using end_channel_within_universe [OF broken_cfg_FullConfig, of "\<lparr>by_out = [], by_uni = []\<rparr>"]
      broken_cfg_rules by blast
  have good: "list_all (\<lambda>p. end_channel p \<le> 512) (get_fixtures_by_uni example_manager 1)
      \<and> list_all (\<lambda>p. end_channel p \<le> 512) (get_fixtures_by_out example_manager gpio18)"
    using end_channel_within_universe [OF example_cfg_FullConfig, of "\<lparr>by_out = [], by_uni = []\<rparr>"]
      example_cfg_built unfolding list_all_iff by blast
  have "FixtureManager_init example_cfg = (None, example_manager)"
    unfolding FixtureManager_init_def by (rule example_cfg_built)
  then show ?thesis
    using bad good example_cfg_FullConfig broken_cfg_FullConfig broken_cfg_rules by blast
qed

theorem validate_cfg_collects_all_violations_witness:
  "FullConfig broken_cfg
   \<and> \<not> (distinct (pins broken_cfg) \<and> distinct (strip_labels broken_cfg) \<and> all_fit broken_cfg)
   \<and> FixtureManager_init broken_cfg
       = (Some (ValueError_config
                 [PinUsedTwice gpio18, LabelUsedTwice OUT2 ''a'', DoesNotFit OUT2 ''a'']),
          \<lparr>by_out = [], by_uni = []\<rparr>)"
proof -
  have rules: "\<not> (distinct (pins broken_cfg) \<and> distinct (strip_labels broken_cfg) \<and> all_fit broken_cfg)"
    using broken_cfg_rules by blast
  have "FixtureManager_init broken_cfg
      = (Some (ValueError_config (violations broken_cfg)), \<lparr>by_out = [], by_uni = []\<rparr>)"
    using validate_cfg_collects_all_violations [OF broken_cfg_FullConfig rules] by blast
  then show ?thesis
    using broken_cfg_FullConfig rules by (simp only: broken_cfg_violations simp_thms)
qed

section \<open>Verification: the snapshot pushed to the channel\<close>

text \<open>
  \<open>snapshot_of str_of tp\<close> is the wire dict of one stored packet. \<open>getAllUniverseDataDict\<close>
  never raises: it gives the dict that maps every captured universe to its wire dict.
\<close>

definition snapshot_of :: "(datetime \<Rightarrow> string) \<Rightarrow> TimedDataPacket \<Rightarrow> UniverseDict" where
  "snapshot_of str_of tp =
     \<lparr>UniverseDict.universe = DataPacket.universe (raw tp),
      UniverseDict.priority = DataPacket.priority (raw tp),
      UniverseDict.sourceName = DataPacket.sourceName (raw tp),
      UniverseDict.dmxData = DataPacket.dmxData (raw tp),
      UniverseDict.latestts = str_of (timeStamp tp)\<rparr>"

definition only_taken :: "'a interference list \<Rightarrow> bool" where
  "only_taken es = list_all (\<lambda>e. e = Taken) es"

lemma all_universes_result:
  "set us \<subseteq> set (keys (db self)) \<Longrightarrow>
   \<exists>snap. all_universes str_of self us tmp = Inr snap
     \<and> (\<forall>v. map_of snap v =
           (if v \<in> set us then map_option (snapshot_of str_of) (map_of (db self) v)
            else map_of tmp v))"
proof (induction us arbitrary: tmp)
  case Nil
  then show ?case by simp
next
  case (Cons u us)
  then obtain tp where tp: "map_of (db self) u = Some tp"
    by (auto simp: keys_def dest: weak_map_of_SomeI)
  let ?tmp = "AList.update u (snapshot_of str_of tp) tmp"
  have step: "getUniverseData str_of self u = Inr \<lparr>UniverseData.universe = DataPacket.universe (raw tp),
               UniverseData.priority = DataPacket.priority (raw tp),
               UniverseData.sourceName = DataPacket.sourceName (raw tp),
               UniverseData.dmxData = DataPacket.dmxData (raw tp),
               UniverseData.latestTimeStamp = str_of (timeStamp tp)\<rparr>"
    using tp by (simp add: getUniverseData_def)
  obtain snap where snap: "all_universes str_of self us ?tmp = Inr snap"
      "\<forall>v. map_of snap v =
           (if v \<in> set us then map_option (snapshot_of str_of) (map_of (db self) v)
            else map_of ?tmp v)"
    using Cons.IH [of ?tmp] Cons.prems by auto
  have "all_universes str_of self (u # us) tmp = Inr snap"
    using step snap(1) by (simp add: toDict_def snapshot_of_def)
  moreover have "\<forall>v. map_of snap v =
           (if v \<in> set (u # us) then map_option (snapshot_of str_of) (map_of (db self) v)
            else map_of tmp v)"
    using snap(2) tp by (auto simp: update_conv')
  ultimately show ?case by blast
qed

lemma getAllUniverseDataDict_result:
  "\<exists>snap. getAllUniverseDataDict str_of self = Inr snap
     \<and> (\<forall>v. map_of snap v = map_option (snapshot_of str_of) (map_of (db self) v))"
proof -
  obtain snap where snap: "all_universes str_of self (keys (db self)) [] = Inr snap"
      "\<forall>v. map_of snap v =
           (if v \<in> set (keys (db self)) then map_option (snapshot_of str_of) (map_of (db self) v)
            else map_of [] v)"
    using all_universes_result [of "keys (db self)" self str_of "[]"] by auto
  have "map_of snap v = map_option (snapshot_of str_of) (map_of (db self) v)" for v
  proof (cases "v \<in> set (keys (db self))")
    case True
    then show ?thesis using snap(2) by simp
  next
    case False
    then have "map_of (db self) v = None" by (simp add: keys_def map_of_eq_None_iff)
    then show ?thesis using snap(2) False by simp
  qed
  then show ?thesis using snap(1) by (auto simp: getAllUniverseDataDict_def)
qed

section \<open>Verification: \<open>_updateQueue\<close>\<close>

lemma interfere_fields: "maxsize (interfere es q) = maxsize q \<and> closed (interfere es q) = closed q"
  by (induction es q rule: interfere.induct) auto

lemma interfere_bounded:
  "length (entries q) \<le> maxsize q \<Longrightarrow> length (entries (interfere es q)) \<le> maxsize q"
  by (induction es q rule: interfere.induct) (auto simp: full_def)

lemma interfere_only_taken:
  "only_taken es \<Longrightarrow> length (entries (interfere es q)) \<le> length (entries q)"
proof (induction es q rule: interfere.induct)
  case (1 q)
  then show ?case by simp
next
  case (2 es q)
  then have "length (entries (interfere es (q\<lparr>entries := tl (entries q)\<rparr>))) \<le> length (tl (entries q))"
    by (simp add: only_taken_def)
  then show ?case by simp
next
  case (3 x es q)
  then show ?case by (simp add: only_taken_def)
qed

lemma try_put_room:
  assumes "getAllUniverseDataDict str_of self = Inr upd" "\<not> closed q" "\<not> full q"
  shows "try_put str_of self q = Returned (self\<lparr>sacnShareQueue := Some (q\<lparr>entries := entries q @ [upd]\<rparr>)\<rparr>)"
  using assms by (simp add: try_put_def put_def)

lemma try_put_cases:
  assumes "getAllUniverseDataDict str_of self = Inr upd" "\<not> closed q"
  shows "try_put str_of self q =
     (if full q then Waiting
      else Returned (self\<lparr>sacnShareQueue := Some (q\<lparr>entries := entries q @ [upd]\<rparr>)\<rparr>))"
  using assms by (simp add: try_put_def put_def)

lemma updateQueue_unfold:
  assumes upd: "getAllUniverseDataDict str_of self = Inr upd"
    and q: "sacnShareQueue self = Some q" "\<not> closed q"
  shows "updateQueue str_of (e1, e2, e3) self =
     (if \<not> full q then
        (if full (interfere e1 q) then Waiting
         else Returned (self\<lparr>sacnShareQueue :=
                 Some ((interfere e1 q)\<lparr>entries := entries (interfere e1 q) @ [upd]\<rparr>)\<rparr>))
      else (case entries (interfere e1 q) of
              [] \<Rightarrow> Returned (self\<lparr>sacnShareQueue := Some (interfere e1 q),
                                 logger := logger self @ [FailedToFreeSpace]\<rparr>)
            | x # rest \<Rightarrow>
                (let q2 = interfere e2 ((interfere e1 q)\<lparr>entries := rest\<rparr>); q3 = interfere e3 q2
                 in if full q2
                    then Returned (self\<lparr>sacnShareQueue := Some q2,
                                       logger := logger self @ [FullBuffer]\<rparr>)
                    else if full q3 then Waiting
                    else Returned (self\<lparr>sacnShareQueue :=
                           Some (q3\<lparr>entries := entries q3 @ [upd]\<rparr>)\<rparr>))))"
proof -
  have c1: "\<not> closed (interfere e1 q)" using q(2) by (simp add: interfere_fields)
  have c3: "\<not> closed (interfere e3 (interfere e2 ((interfere e1 q)\<lparr>entries := rest\<rparr>)))" for rest
    using c1 by (simp add: interfere_fields)
  show ?thesis
    using q c1 c3
    by (auto simp: updateQueue_def Let_def get_nowait_def try_put_cases [OF upd]
        split: list.splits)
qed

lemma updateQueue_keeps:
  assumes "updateQueue str_of env self = Returned self'"
  shows "db self' = db self \<and> lastQueueUpdateTs self' = lastQueueUpdateTs self
    \<and> registeredUniverses self' = registeredUniverses self"
  using assms
  by (auto simp: updateQueue_def try_put_def Let_def
      split: option.splits sum.splits if_splits put_result.splits)

text \<open>
  Claim C7. A push to the open channel of 50 places, whatever the other processes do in
  between: when the channel is not full the update is enqueued behind what is waiting; when it
  is full one entry, the oldest, is taken out and the update is enqueued (with nothing in
  between the result is the old content without its head, then the update); when that
  \<open>get(False)\<close> finds the channel empty, or the channel is full again after it, nothing is
  enqueued and an error is logged. The call never waits in a \<open>put\<close> as long as no other
  process adds entries (this manager is the channel's only producer: the worker only calls
  \<open>get\<close> and \<open>close\<close>), and the channel never holds more than 50 entries.
\<close>

theorem updateQueue_never_waits_never_overflows:
  assumes q: "sacnShareQueue self = Some q" "\<not> closed q" "maxsize q = queueSize"
      "length (entries q) \<le> maxsize q"
  shows "\<exists>upd. getAllUniverseDataDict str_of self = Inr upd
    \<and> (\<not> full q \<and> \<not> full (interfere e1 q) \<longrightarrow>
          updateQueue str_of (e1, e2, e3) self
            = Returned (self\<lparr>sacnShareQueue :=
                Some ((interfere e1 q)\<lparr>entries := entries (interfere e1 q) @ [upd]\<rparr>)\<rparr>))
    \<and> (full q \<and> entries (interfere e1 q) = [] \<longrightarrow>
          updateQueue str_of (e1, e2, e3) self
            = Returned (self\<lparr>sacnShareQueue := Some (interfere e1 q),
                             logger := logger self @ [FailedToFreeSpace]\<rparr>))
    \<and> (\<forall>x rest. full q \<and> entries (interfere e1 q) = x # rest
          \<and> full (interfere e2 ((interfere e1 q)\<lparr>entries := rest\<rparr>)) \<longrightarrow>
          updateQueue str_of (e1, e2, e3) self
            = Returned (self\<lparr>sacnShareQueue := Some (interfere e2 ((interfere e1 q)\<lparr>entries := rest\<rparr>)),
                             logger := logger self @ [FullBuffer]\<rparr>))
    \<and> (full q \<longrightarrow>
          updateQueue str_of ([], [], []) self
            = Returned (self\<lparr>sacnShareQueue := Some (q\<lparr>entries := tl (entries q) @ [upd]\<rparr>)\<rparr>))
    \<and> (only_taken e1 \<and> only_taken e3 \<longrightarrow> updateQueue str_of (e1, e2, e3) self \<noteq> Waiting)
    \<and> (\<forall>self' q'. updateQueue str_of (e1, e2, e3) self = Returned self'
          \<and> sacnShareQueue self' = Some q' \<longrightarrow> length (entries q') \<le> queueSize)"
proof -
  obtain upd where upd: "getAllUniverseDataDict str_of self = Inr upd"
    using getAllUniverseDataDict_result by blast
  note unfold = updateQueue_unfold [OF upd q(1,2)]
  let ?q1 = "interfere e1 q"
  have b1: "length (entries ?q1) \<le> queueSize" and m1: "maxsize ?q1 = queueSize"
    using interfere_bounded [OF q(4), of e1] q(3) by (simp_all add: interfere_fields)
  have a: "\<not> full q \<and> \<not> full ?q1 \<longrightarrow>
      updateQueue str_of (e1, e2, e3) self
        = Returned (self\<lparr>sacnShareQueue := Some (?q1\<lparr>entries := entries ?q1 @ [upd]\<rparr>)\<rparr>)"
    by (simp add: unfold)
  have b: "full q \<and> entries ?q1 = [] \<longrightarrow>
      updateQueue str_of (e1, e2, e3) self
        = Returned (self\<lparr>sacnShareQueue := Some ?q1, logger := logger self @ [FailedToFreeSpace]\<rparr>)"
    by (simp add: unfold)
  have c: "\<forall>x rest. full q \<and> entries ?q1 = x # rest
        \<and> full (interfere e2 (?q1\<lparr>entries := rest\<rparr>)) \<longrightarrow>
      updateQueue str_of (e1, e2, e3) self
        = Returned (self\<lparr>sacnShareQueue := Some (interfere e2 (?q1\<lparr>entries := rest\<rparr>)),
                         logger := logger self @ [FullBuffer]\<rparr>)"
    by (simp add: unfold Let_def)
  have d: "full q \<longrightarrow>
      updateQueue str_of ([], [], []) self
        = Returned (self\<lparr>sacnShareQueue := Some (q\<lparr>entries := tl (entries q) @ [upd]\<rparr>)\<rparr>)"
  proof
    assume f: "full q"
    then have len: "length (entries q) = 50" using q(3,4) by (simp add: full_def queueSize_def)
    then obtain x rest where xs: "entries q = x # rest" by (cases "entries q") auto
    then have "\<not> full (q\<lparr>entries := rest\<rparr>)" using len q(3) by (simp add: full_def queueSize_def)
    then show "updateQueue str_of ([], [], []) self
        = Returned (self\<lparr>sacnShareQueue := Some (q\<lparr>entries := tl (entries q) @ [upd]\<rparr>)\<rparr>)"
      using f xs by (simp add: updateQueue_unfold [OF upd q(1,2)] Let_def)
  qed
  have e: "only_taken e1 \<and> only_taken e3 \<longrightarrow> updateQueue str_of (e1, e2, e3) self \<noteq> Waiting"
  proof
    assume t: "only_taken e1 \<and> only_taken e3"
    have t1: "\<not> full q \<Longrightarrow> \<not> full ?q1"
      using interfere_only_taken [of e1 q] t by (simp add: full_def interfere_fields)
    have t3: "\<not> full q2 \<Longrightarrow> \<not> full (interfere e3 q2)" for q2 :: "snapshot Queue"
      using interfere_only_taken [of e3 q2] t by (simp add: full_def interfere_fields)
    show "updateQueue str_of (e1, e2, e3) self \<noteq> Waiting"
      using t1 t3 by (auto simp: unfold Let_def split: list.splits)
  qed
  have g: "\<forall>self' q'. updateQueue str_of (e1, e2, e3) self = Returned self'
          \<and> sacnShareQueue self' = Some q' \<longrightarrow> length (entries q') \<le> queueSize"
  proof (intro allI impI)
    fix self' q'
    assume r: "updateQueue str_of (e1, e2, e3) self = Returned self' \<and> sacnShareQueue self' = Some q'"
    have room: "\<not> full p \<Longrightarrow> maxsize p = queueSize \<Longrightarrow> length (entries p @ [upd]) \<le> queueSize"
      for p :: "snapshot Queue" by (simp add: full_def)
    have b2: "length (entries (interfere e2 (?q1\<lparr>entries := rest\<rparr>))) \<le> queueSize"
      if "entries ?q1 = x # rest" for x rest
      using interfere_bounded [of "?q1\<lparr>entries := rest\<rparr>" e2] b1 m1 that by simp
    have m3: "maxsize (interfere e3 (interfere e2 (?q1\<lparr>entries := rest\<rparr>))) = queueSize" for rest
      using m1 by (simp add: interfere_fields)
    show "length (entries q') \<le> queueSize"
      using r b1 m1 b2 m3
      by (auto simp: unfold Let_def full_def interfere_fields q(3) split: list.splits if_splits)
  qed
  show ?thesis using upd a b c d e g by blast
qed

end
